theory Spec2Isabelle
  imports Main
begin

section \<open>The page: elements, selectors, the overlay predicate\<close>

text \<open>
  An element is known by its attributes (name and value); the document is the list of
  its elements in tree order. The two selectors of \<^verbatim>\<open>useWindow.ts\<close> are an attribute
  presence test and an attribute value test.
\<close>

type_synonym element = "(string \<times> string) list"

datatype selector = HasAttr string | AttrEq string string

fun matches :: "selector \<Rightarrow> element \<Rightarrow> bool" where
  "matches (HasAttr n) e = (map_of e n \<noteq> None)"
| "matches (AttrEq n v) e = (map_of e n = Some v)"

definition querySelectorAll :: "selector \<Rightarrow> element list \<Rightarrow> element list" where
  "querySelectorAll sel doc = filter (matches sel) doc"

text \<open>\<^verbatim>\<open>target.closest(sel)\<close>: the first match among the target and its ancestors,
  given innermost first.\<close>

definition closest :: "selector \<Rightarrow> element list \<Rightarrow> element option" where
  "closest sel chain = find (matches sel) chain"

definition isAnyPopoverOpen :: "element list \<Rightarrow> bool" where
  "isAnyPopoverOpen doc =
     (let popoverContents = querySelectorAll (HasAttr ''data-radix-popper-content-wrapper'') doc
      in length popoverContents > 0)"

section \<open>The host, the timers and the state of the hook\<close>

datatype command = SetWindowHeight nat

datatype error = HostError string | TypeError

text \<open>How the promise of a host call settles.\<close>

datatype outcome = Fulfilled | Rejected error

text \<open>The two closures handed to \<^verbatim>\<open>setTimeout\<close>.\<close>

datatype callback = DragRelease | Debounce

record timer =
  tid :: nat
  due :: nat
  cb :: callback

text \<open>A call of \<^verbatim>\<open>resizeWindow\<close> suspended at its \<^verbatim>\<open>await\<close>: the argument it
  will remember and the command whose promise it waits for.\<close>

record pending =
  pexpanded :: bool
  pcommand :: command

record world =
  document :: "element list"
  now :: nat
  timers :: "timer list"
  nextTimer :: nat
  fired :: "(nat \<times> callback) list"
  issued :: "command list"
  applied :: "command list"
  inflight :: "pending list"
  console :: "(string \<times> error) list"
  unhandled :: "error list"
  currentExpandedRef :: "bool option"
  isDragging :: bool
  debounceTimeout :: "nat option"
  mouseListeners :: bool
  observerConnected :: bool

text \<open>
  \<^verbatim>\<open>document\<close> is the page; \<^verbatim>\<open>now\<close>, \<^verbatim>\<open>timers\<close>, \<^verbatim>\<open>nextTimer\<close> and \<^verbatim>\<open>fired\<close> are the
  browser's timer table (time in milliseconds, the callbacks it has run and when);
  \<^verbatim>\<open>issued\<close> are the commands sent to the host, \<^verbatim>\<open>applied\<close> those it carried out;
  \<^verbatim>\<open>inflight\<close> are the suspended calls; \<^verbatim>\<open>console\<close> is what \<^verbatim>\<open>console.error\<close> printed;
  \<^verbatim>\<open>unhandled\<close> are rejections of a \<^verbatim>\<open>resizeWindow\<close> promise nobody caught. The last
  five fields are the hook's own variables and registrations.
\<close>

section \<open>resizeWindow\<close>

definition newHeight :: "bool \<Rightarrow> nat" where
  "newHeight expanded = (if expanded then 600 else 54)"

text \<open>The call up to its \<^verbatim>\<open>await\<close>: both guards, then the command is sent.
  \<^verbatim>\<open>getCurrentWebviewWindow()\<close> is taken to return the handle of the one window, which
  goes with every command and is left out.\<close>

definition resizeWindow_start :: "bool \<Rightarrow> world \<Rightarrow> pending option \<times> world" where
  "resizeWindow_start expanded w =
     (if \<not> expanded \<and> isAnyPopoverOpen (document w) then (None, w)
      else if currentExpandedRef w = Some expanded then (None, w)
      else
        let c = SetWindowHeight (newHeight expanded) in
        (Some \<lparr>pexpanded = expanded, pcommand = c\<rparr>, w\<lparr>issued := issued w @ [c]\<rparr>))"

text \<open>The host answers: a fulfilled command has been carried out.\<close>

definition host_reply :: "command \<Rightarrow> outcome \<Rightarrow> world \<Rightarrow> world" where
  "host_reply c reply w =
     (case reply of Fulfilled \<Rightarrow> w\<lparr>applied := applied w @ [c]\<rparr> | Rejected err \<Rightarrow> w)"

text \<open>The rest of the \<^verbatim>\<open>try\<close> block after the \<^verbatim>\<open>await\<close>: a rejection is thrown there.\<close>

definition resizeWindow_continue :: "pending \<Rightarrow> outcome \<Rightarrow> world \<Rightarrow> error + world" where
  "resizeWindow_continue p reply w =
     (case reply of
        Rejected err \<Rightarrow> Inl err
      | Fulfilled \<Rightarrow> Inr (w\<lparr>currentExpandedRef := Some (pexpanded p)\<rparr>))"

text \<open>The \<^verbatim>\<open>catch\<close> clause. The result is how the promise of \<^verbatim>\<open>resizeWindow\<close>
  settles: \<open>Inl\<close> would be an exception reaching the caller.\<close>

definition resizeWindow_resume :: "pending \<Rightarrow> outcome \<Rightarrow> world \<Rightarrow> error + world" where
  "resizeWindow_resume p reply w =
     (let w1 = host_reply (pcommand p) reply w in
      case resizeWindow_continue p reply w1 of
        Inr w2 \<Rightarrow> Inr w2
      | Inl err \<Rightarrow> Inr (w1\<lparr>console := console w1 @ [(''Failed to resize window:'', err)]\<rparr>))"

text \<open>A call run to its end, with the host's answer should a command be sent
  (\<^verbatim>\<open>await resizeWindow(expanded)\<close>).\<close>

definition resizeWindow :: "bool \<Rightarrow> outcome \<Rightarrow> world \<Rightarrow> error + world" where
  "resizeWindow expanded reply w =
     (case resizeWindow_start expanded w of
        (None, w1) \<Rightarrow> Inr w1
      | (Some p, w1) \<Rightarrow> resizeWindow_resume p reply w1)"

text \<open>A call nobody awaits, as the timer callbacks make it: a suspended call joins
  \<^verbatim>\<open>inflight\<close>.\<close>

definition resizeWindow_spawn :: "bool \<Rightarrow> world \<Rightarrow> world" where
  "resizeWindow_spawn expanded w =
     (case resizeWindow_start expanded w of
        (None, w1) \<Rightarrow> w1
      | (Some p, w1) \<Rightarrow> w1\<lparr>inflight := inflight w1 @ [p]\<rparr>)"

section \<open>The effect of useWindowResize\<close>

definition setTimeout :: "callback \<Rightarrow> nat \<Rightarrow> world \<Rightarrow> nat \<times> world" where
  "setTimeout f delay w =
     (nextTimer w,
      w\<lparr>timers := timers w @ [\<lparr>tid = nextTimer w, due = now w + delay, cb = f\<rparr>],
        nextTimer := Suc (nextTimer w)\<rparr>)"

definition clearTimeout :: "nat \<Rightarrow> world \<Rightarrow> world" where
  "clearTimeout i w = w\<lparr>timers := filter (\<lambda>t. tid t \<noteq> i) (timers w)\<rparr>"

text \<open>\<^verbatim>\<open>if (debounceTimeout)\<close>: \<^verbatim>\<open>null\<close> and the number 0 are falsy.\<close>

definition truthy :: "nat option \<Rightarrow> bool" where
  "truthy h = (case h of None \<Rightarrow> False | Some i \<Rightarrow> i \<noteq> 0)"

definition handleMouseDown :: "element list \<Rightarrow> world \<Rightarrow> world" where
  "handleMouseDown chain w =
     (let isDragRegion = closest (AttrEq ''data-tauri-drag-region'' ''true'') chain
      in if isDragRegion \<noteq> None then w\<lparr>isDragging := True\<rparr> else w)"

definition handleMouseUp :: "world \<Rightarrow> world" where
  "handleMouseUp w =
     (if isDragging w then snd (setTimeout DragRelease 100 (w\<lparr>isDragging := False\<rparr>)) else w)"

definition observerCallback :: "world \<Rightarrow> world" where
  "observerCallback w =
     (let w1 = (if truthy (debounceTimeout w) then clearTimeout (the (debounceTimeout w)) w else w);
          (i, w2) = setTimeout Debounce 150 w1
      in w2\<lparr>debounceTimeout := Some i\<rparr>)"

text \<open>Both timer closures have the same body.\<close>

definition timerCallback :: "callback \<Rightarrow> world \<Rightarrow> world" where
  "timerCallback f w =
     (if \<not> isAnyPopoverOpen (document w) then resizeWindow_spawn False w else w)"

definition cleanup :: "world \<Rightarrow> world" where
  "cleanup w =
     (let w1 = w\<lparr>mouseListeners := False, observerConnected := False\<rparr>
      in if truthy (debounceTimeout w1) then clearTimeout (the (debounceTimeout w1)) w1 else w1)"

text \<open>The state after the first render and its effect: the ref is \<^verbatim>\<open>null\<close>, nothing is
  pending, the listeners and the observer are registered. Timer handles start at 1.\<close>

definition mount :: "element list \<Rightarrow> world" where
  "mount doc =
     \<lparr>document = doc, now = 0, timers = [], nextTimer = 1, fired = [],
      issued = [], applied = [], inflight = [], console = [], unhandled = [],
      currentExpandedRef = None, isDragging = False, debounceTimeout = None,
      mouseListeners = True, observerConnected = True\<rparr>"

section \<open>The event loop\<close>

text \<open>The browser runs a due timer: the callback is logged with its time and run.\<close>

definition runTimer :: "world \<Rightarrow> timer \<Rightarrow> world" where
  "runTimer w t = timerCallback (cb t) (w\<lparr>now := due t, fired := fired w @ [(due t, cb t)]\<rparr>)"

text \<open>Time passes by \<open>d\<close> milliseconds: the timers due by then leave the table and run,
  earliest first.\<close>

definition tick :: "nat \<Rightarrow> world \<Rightarrow> world" where
  "tick d w =
     (let t' = now w + d;
          ready = sort_key due (filter (\<lambda>t. due t \<le> t') (timers w));
          w0 = w\<lparr>timers := filter (\<lambda>t. \<not> due t \<le> t') (timers w)\<rparr>
      in (foldl runTimer w0 ready)\<lparr>now := t'\<rparr>)"

text \<open>The promise of the \<open>k\<close>-th suspended call settles and the call goes on.\<close>

definition settle :: "nat \<Rightarrow> outcome \<Rightarrow> world \<Rightarrow> world" where
  "settle k reply w =
     (if k < length (inflight w) then
        (let p = inflight w ! k;
             w1 = w\<lparr>inflight := take k (inflight w) @ drop (Suc k) (inflight w)\<rparr>
         in case resizeWindow_resume p reply w1 of
              Inr w2 \<Rightarrow> w2
            | Inl err \<Rightarrow> w1\<lparr>unhandled := unhandled w1 @ [err]\<rparr>)
      else w)"

datatype event =
    CallResize bool
  | Settle nat outcome
  | MouseDown "element list"
  | MouseUp
  | Mutation
  | Tick nat
  | Unmount
  | SetDocument "element list"

text \<open>
  \<open>CallResize\<close> is a caller of the returned \<^verbatim>\<open>resizeWindow\<close>; \<open>MouseDown\<close> carries the
  target and its ancestors; \<open>Mutation\<close> is a batch of records the observer is told of;
  \<open>SetDocument\<close> is the page changing. Pointer events and mutations reach the hook only
  while its listeners and observer are registered.
\<close>

fun step :: "event \<Rightarrow> world \<Rightarrow> world" where
  "step (CallResize expanded) w = resizeWindow_spawn expanded w"
| "step (Settle k reply) w = settle k reply w"
| "step (MouseDown chain) w = (if mouseListeners w then handleMouseDown chain w else w)"
| "step MouseUp w = (if mouseListeners w then handleMouseUp w else w)"
| "step Mutation w = (if observerConnected w then observerCallback w else w)"
| "step (Tick d) w = tick d w"
| "step Unmount w = cleanup w"
| "step (SetDocument doc) w = w\<lparr>document := doc\<rparr>"

fun run :: "event list \<Rightarrow> world \<Rightarrow> world" where
  "run [] w = w"
| "run (e # es) w = run es (step e w)"

section \<open>Sample elements\<close>

definition overlayElement :: element where
  "overlayElement = [(''data-radix-popper-content-wrapper'', '''')]"

definition dragElement :: element where
  "dragElement = [(''data-tauri-drag-region'', ''true'')]"

section \<open>What the host last carried out\<close>

text \<open>The expansion state the host last applied with success, read from its own record:
  none yet, or expanded exactly when the last command carried out set the height to 600.\<close>

definition lastApplied :: "world \<Rightarrow> bool option" where
  "lastApplied w =
     (if applied w = [] then None else Some (last (applied w) = SetWindowHeight 600))"

text \<open>The remembered state is the host's last applied one, and every suspended call waits
  for the command of its own argument.\<close>

definition consistent :: "world \<Rightarrow> bool" where
  "consistent w \<longleftrightarrow>
     currentExpandedRef w = lastApplied w \<and>
     (\<forall>p \<in> set (inflight w). pcommand p = SetWindowHeight (newHeight (pexpanded p)))"

section \<open>The debounce slot\<close>

text \<open>The runs of the debounce closure so far, with their times.\<close>

definition debounceRuns :: "world \<Rightarrow> (nat \<times> callback) list" where
  "debounceRuns w = filter (\<lambda>r. snd r = Debounce) (fired w)"

text \<open>The pending debounce timers.\<close>

definition pendingDebounce :: "world \<Rightarrow> timer list" where
  "pendingDebounce w = filter (\<lambda>t. cb t = Debounce) (timers w)"

text \<open>Handles are positive, every pending timer is due in the future, at most one debounce
  timer is pending, and a pending debounce timer is the one whose handle
  \<^verbatim>\<open>debounceTimeout\<close> holds.\<close>

definition slot_ok :: "world \<Rightarrow> bool" where
  "slot_ok w \<longleftrightarrow>
     0 < nextTimer w \<and>
     (\<forall>t \<in> set (timers w). now w < due t) \<and>
     length (pendingDebounce w) \<le> 1 \<and>
     (\<forall>t \<in> set (timers w). cb t = Debounce \<longrightarrow> debounceTimeout w = Some (tid t) \<and> tid t \<noteq> 0)"

text \<open>The observer is connected and the one debounce timer is due 150 ms from now.\<close>

definition armed :: "world \<Rightarrow> bool" where
  "armed w \<longleftrightarrow> slot_ok w \<and> observerConnected w \<and>
     map due (pendingDebounce w) = [now w + 150]"

text \<open>The debounce runs that are due by the time \<open>T\<close>.\<close>

definition dueBy :: "nat \<Rightarrow> world \<Rightarrow> (nat \<times> callback) list" where
  "dueBy T w = map (\<lambda>t. (due t, Debounce)) (filter (\<lambda>t. due t \<le> T) (pendingDebounce w))"

text \<open>The time that passes during a list of events.\<close>

fun elapsed :: "event list \<Rightarrow> nat" where
  "elapsed [] = 0"
| "elapsed (Tick d # es) = d + elapsed es"
| "elapsed (e # es) = elapsed es"

text \<open>Events among which the observer is told of nothing and the view stays mounted.\<close>

fun quiet :: "event list \<Rightarrow> bool" where
  "quiet [] = True"
| "quiet (Mutation # es) = False"
| "quiet (Unmount # es) = False"
| "quiet (e # es) = quiet es"

text \<open>A burst of mutation batches: one batch, then for each gap the events of the gap
  (time passing, pointer events, calls, replies, page changes) and another batch.\<close>

fun burst :: "event list list \<Rightarrow> event list" where
  "burst [] = [Mutation]"
| "burst (g # gs) = Mutation # g @ burst gs"

text \<open>The pending drag-release timers and the runs of the drag-release closure so far.\<close>

definition pendingDrag :: "world \<Rightarrow> timer list" where
  "pendingDrag w = filter (\<lambda>t. cb t = DragRelease) (timers w)"

definition dragRuns :: "world \<Rightarrow> (nat \<times> callback) list" where
  "dragRuns w = filter (\<lambda>r. snd r = DragRelease) (fired w)"

text \<open>The listeners and the observer are registered together; handles are given out in
  order; no drag-release timer has the handle that \<^verbatim>\<open>debounceTimeout\<close> holds.\<close>

definition ids_ok :: "world \<Rightarrow> bool" where
  "ids_ok w \<longleftrightarrow>
     mouseListeners w = observerConnected w \<and>
     (\<forall>t \<in> set (timers w). tid t < nextTimer w) \<and>
     (case debounceTimeout w of
        None \<Rightarrow> True
      | Some i \<Rightarrow> i < nextTimer w \<and> (\<forall>t \<in> set (timers w). cb t = DragRelease \<longrightarrow> tid t \<noteq> i))"

section \<open>useWindowFocus\<close>

text \<open>The two optional callbacks act on the state \<open>'s\<close> of whoever supplied them.\<close>

record 's useWindowFocusOptions =
  onFocusLost :: "('s \<Rightarrow> 's) option"
  onFocusGained :: "('s \<Rightarrow> 's) option"

text \<open>Calling a value that may be \<^verbatim>\<open>undefined\<close> throws a TypeError when it is.\<close>

definition callOptional :: "('s \<Rightarrow> 's) option \<Rightarrow> 's \<Rightarrow> error + 's" where
  "callOptional f s = (case f of None \<Rightarrow> Inl TypeError | Some g \<Rightarrow> Inr (g s))"

definition handleFocusChange :: "'s useWindowFocusOptions \<Rightarrow> bool \<Rightarrow> 's \<Rightarrow> error + 's" where
  "handleFocusChange opts focused s =
     (if focused \<and> onFocusGained opts \<noteq> None then callOptional (onFocusGained opts) s
      else if \<not> focused \<and> onFocusLost opts \<noteq> None then callOptional (onFocusLost opts) s
      else Inr s)"

text \<open>
  The state of the focus effect: \<^verbatim>\<open>app\<close> is the callbacks' state and \<^verbatim>\<open>rejections\<close> the
  errors thrown by \<^verbatim>\<open>handleFocusChange\<close>; \<^verbatim>\<open>unlisten\<close> is the closure variable, holding
  the handle of the subscription its function cancels; \<^verbatim>\<open>setupPending\<close> says the promise
  of \<^verbatim>\<open>onFocusChanged\<close> has not settled; \<^verbatim>\<open>listeners\<close> are the subscriptions the host
  serves; \<^verbatim>\<open>focusConsole\<close> is what \<^verbatim>\<open>console.error\<close> printed.
\<close>

record 's focusWorld =
  app :: 's
  rejections :: "error list"
  unlisten :: "nat option"
  setupPending :: bool
  listeners :: "nat list"
  nextListener :: nat
  focusConsole :: "(string \<times> error) list"

text \<open>After the effect has run: \<^verbatim>\<open>setupFocusListener\<close> is suspended at its \<^verbatim>\<open>await\<close>.\<close>

definition focusMount :: "'s \<Rightarrow> 's focusWorld" where
  "focusMount s =
     \<lparr>app = s, rejections = [], unlisten = None, setupPending = True,
      listeners = [], nextListener = 0, focusConsole = []\<rparr>"

text \<open>The promise of \<^verbatim>\<open>onFocusChanged\<close> settles: the subscription exists and its cancel
  function is assigned to \<^verbatim>\<open>unlisten\<close>, or the error is printed.\<close>

definition setupFocusListener_resume :: "outcome \<Rightarrow> 's focusWorld \<Rightarrow> 's focusWorld" where
  "setupFocusListener_resume reply w =
     (case reply of
        Fulfilled \<Rightarrow>
          w\<lparr>listeners := listeners w @ [nextListener w],
            nextListener := Suc (nextListener w),
            unlisten := Some (nextListener w),
            setupPending := False\<rparr>
      | Rejected err \<Rightarrow>
          w\<lparr>focusConsole := focusConsole w @ [(''Failed to setup focus listener:'', err)],
            setupPending := False\<rparr>)"

text \<open>The cleanup of the effect: \<^verbatim>\<open>if (unlisten) unlisten()\<close>.\<close>

definition focusCleanup :: "'s focusWorld \<Rightarrow> 's focusWorld" where
  "focusCleanup w =
     (case unlisten w of
        Some i \<Rightarrow> w\<lparr>listeners := removeAll i (listeners w)\<rparr>
      | None \<Rightarrow> w)"

text \<open>The host tells one subscription of a focus change: the handler calls
  \<^verbatim>\<open>handleFocusChange(focused)\<close> and does not await it.\<close>

definition deliver :: "'s useWindowFocusOptions \<Rightarrow> bool \<Rightarrow> 's focusWorld \<Rightarrow> nat \<Rightarrow> 's focusWorld" where
  "deliver opts focused w i =
     (case handleFocusChange opts focused (app w) of
        Inr s \<Rightarrow> w\<lparr>app := s\<rparr>
      | Inl err \<Rightarrow> w\<lparr>rejections := rejections w @ [err]\<rparr>)"

datatype focusEvent = SetupSettles outcome | FocusChanged bool | EffectCleanup

fun focusStep :: "'s useWindowFocusOptions \<Rightarrow> focusEvent \<Rightarrow> 's focusWorld \<Rightarrow> 's focusWorld" where
  "focusStep opts (SetupSettles reply) w =
     (if setupPending w then setupFocusListener_resume reply w else w)"
| "focusStep opts (FocusChanged focused) w = foldl (deliver opts focused) w (listeners w)"
| "focusStep opts EffectCleanup w = focusCleanup w"

fun focusRun :: "'s useWindowFocusOptions \<Rightarrow> focusEvent list \<Rightarrow> 's focusWorld \<Rightarrow> 's focusWorld" where
  "focusRun opts [] w = w"
| "focusRun opts (e # es) w = focusRun opts es (focusStep opts e w)"

text \<open>Callbacks that write their name into a log, for the examples.\<close>

definition logging :: "string list useWindowFocusOptions" where
  "logging = \<lparr>onFocusLost = Some (\<lambda>l. l @ [''lost'']), onFocusGained = Some (\<lambda>l. l @ [''gained''])\<rparr>"

section \<open>The options of the mutation observer\<close>

text \<open>Nodes of the page are numbered. A mutation record has its kind, its target and the
  target's ancestors, nearest first.\<close>

type_synonym node = nat

datatype mutationKind = AttributeChange string | ChildListChange | CharacterDataChange

record mutationRecord =
  kind :: mutationKind
  target :: node
  ancestors :: "node list"

record mutationObserverInit =
  childList :: bool
  subtree :: bool
  attributes :: bool
  attributeFilter :: "string list option"
  characterData :: bool

text \<open>The options \<^verbatim>\<open>useWindowResize\<close> passes to \<^verbatim>\<open>observer.observe(document.body, ...)\<close>;
  \<^verbatim>\<open>characterData\<close> is not given and so is off.\<close>

definition observeOptions :: mutationObserverInit where
  "observeOptions =
     \<lparr>childList = True, subtree = False, attributes = True,
      attributeFilter = Some [''data-state''], characterData = False\<rparr>"

text \<open>
  The browser's rule for telling an observer registered on the node \<open>observed\<close> of a
  mutation (DOM Standard, "queue a mutation record"): the observed node is the target or
  one of its ancestors; unless it is the target itself, \<^verbatim>\<open>subtree\<close> must be set; an
  attribute change needs \<^verbatim>\<open>attributes\<close> and, if a filter is given, a name in the filter; a
  child-list change needs \<^verbatim>\<open>childList\<close>; a character-data change needs \<^verbatim>\<open>characterData\<close>.
\<close>

definition notified :: "node \<Rightarrow> mutationObserverInit \<Rightarrow> mutationRecord \<Rightarrow> bool" where
  "notified observed opts m \<longleftrightarrow>
     observed \<in> set (target m # ancestors m) \<and>
     (observed = target m \<or> subtree opts) \<and>
     (case kind m of
        AttributeChange name \<Rightarrow>
          attributes opts \<and>
          (case attributeFilter opts of None \<Rightarrow> True | Some names \<Rightarrow> name \<in> set names)
      | ChildListChange \<Rightarrow> childList opts
      | CharacterDataChange \<Rightarrow> characterData opts)"

text \<open>A small page: \<^verbatim>\<open>html\<close> (0), \<^verbatim>\<open>body\<close> (1), a popover wrapper under \<^verbatim>\<open>body\<close> (2) and
  the popover content inside the wrapper (3).\<close>

definition bodyNode :: node where
  "bodyNode = 1"

definition popoverToggle :: mutationRecord where
  "popoverToggle = \<lparr>kind = AttributeChange ''data-state'', target = 3, ancestors = [2, 1, 0]\<rparr>"

section \<open>Properties of resizeWindow\<close>

lemma overlay_open: "isAnyPopoverOpen [overlayElement]"
  by (simp add: isAnyPopoverOpen_def querySelectorAll_def overlayElement_def)

lemma overlay_closed: "\<not> isAnyPopoverOpen []"
  by (simp add: isAnyPopoverOpen_def querySelectorAll_def)

lemma newHeight_600: "(newHeight e = 600) = e"
  by (simp add: newHeight_def)

text \<open>
  C2. A call \<^verbatim>\<open>resizeWindow(false)\<close> made while an element with the overlay marker is in
  the document returns at once: no command is sent, nothing is suspended, and the state
  (the remembered expansion state included) is what it was, whatever that state held.
\<close>

theorem resizeWindow_false_overlay_noop:
  "isAnyPopoverOpen (document w) \<Longrightarrow>
     resizeWindow_start False w = (None, w) \<and>
     resizeWindow False reply w = Inr w \<and>
     resizeWindow_spawn False w = w"
  by (simp add: resizeWindow_start_def resizeWindow_def resizeWindow_spawn_def)

theorem resizeWindow_false_overlay_noop_witness:
  "isAnyPopoverOpen (document ((mount [overlayElement])\<lparr>currentExpandedRef := Some True\<rparr>)) \<and>
   resizeWindow False (Rejected (HostError ''busy''))
       ((mount [overlayElement])\<lparr>currentExpandedRef := Some True\<rparr>)
     = Inr ((mount [overlayElement])\<lparr>currentExpandedRef := Some True\<rparr>) \<and>
   issued (resizeWindow_spawn False ((mount [overlayElement])\<lparr>currentExpandedRef := Some True\<rparr>)) = []"
proof -
  have open_here:
    "isAnyPopoverOpen (document ((mount [overlayElement])\<lparr>currentExpandedRef := Some True\<rparr>))"
    by (simp add: mount_def overlay_open)
  show ?thesis
    using open_here
      resizeWindow_false_overlay_noop [OF open_here, of "Rejected (HostError ''busy'')"]
    by (simp add: mount_def)
qed

text \<open>
  C3. A call that passes both guards (it is not a collapse under an open overlay, and the
  remembered state is not the requested one) sends exactly one command, setting the window
  height to 600 when expanding and to 54 when collapsing; when the host fulfils it, the
  call ends with the requested state remembered and nothing further sent.
\<close>

theorem resizeWindow_issues_one_command:
  "\<not> (\<not> expanded \<and> isAnyPopoverOpen (document w)) \<Longrightarrow>
   currentExpandedRef w \<noteq> Some expanded \<Longrightarrow>
     issued (snd (resizeWindow_start expanded w))
       = issued w @ [SetWindowHeight (if expanded then 600 else 54)] \<and>
     (\<exists>w'. resizeWindow expanded Fulfilled w = Inr w' \<and>
           issued w' = issued w @ [SetWindowHeight (if expanded then 600 else 54)] \<and>
           currentExpandedRef w' = Some expanded)"
  by (simp add: resizeWindow_start_def resizeWindow_def resizeWindow_resume_def
      resizeWindow_continue_def host_reply_def newHeight_def Let_def)

theorem resizeWindow_issues_one_command_witness:
  "issued (snd (resizeWindow_start True (mount []))) = [SetWindowHeight 600] \<and>
   issued (snd (resizeWindow_start False ((mount [])\<lparr>currentExpandedRef := Some True\<rparr>)))
     = [SetWindowHeight 54] \<and>
   (\<exists>w'. resizeWindow False Fulfilled ((mount [])\<lparr>currentExpandedRef := Some True\<rparr>) = Inr w' \<and>
         issued w' = [SetWindowHeight 54] \<and> currentExpandedRef w' = Some False)"
  using resizeWindow_issues_one_command [of True "mount []"]
    resizeWindow_issues_one_command [of False "(mount [])\<lparr>currentExpandedRef := Some True\<rparr>"]
  by (simp add: mount_def overlay_closed)

lemma unhandled_spawn: "unhandled (resizeWindow_spawn e w) = unhandled w"
  by (simp add: resizeWindow_spawn_def resizeWindow_start_def Let_def)

lemma unhandled_settle: "unhandled (settle k reply w) = unhandled w"
  by (simp add: settle_def resizeWindow_resume_def resizeWindow_continue_def host_reply_def
      Let_def split: outcome.split)

lemma unhandled_foldl: "unhandled (foldl runTimer w ts) = unhandled w"
  by (induction ts arbitrary: w)
    (simp_all add: runTimer_def timerCallback_def unhandled_spawn)

lemma unhandled_step: "unhandled (step e w) = unhandled w"
  by (cases e)
    (simp_all add: unhandled_spawn unhandled_settle unhandled_foldl tick_def Let_def
      handleMouseDown_def handleMouseUp_def setTimeout_def observerCallback_def
      clearTimeout_def cleanup_def split: prod.split)

lemma unhandled_run: "unhandled (run evs w) = unhandled w"
  by (induction evs arbitrary: w) (simp_all add: unhandled_step)

text \<open>
  C4. When the host rejects the command, the call still ends normally (its promise is
  fulfilled, so nothing is thrown at the caller): the error is printed, the remembered
  state is the one from before the call, and the same request made again on the same page
  sends the command again. No call of \<^verbatim>\<open>resizeWindow\<close> ever ends with an exception,
  awaited or not: in no state reachable from the mount has a promise of \<^verbatim>\<open>resizeWindow\<close>
  been rejected.
\<close>

theorem resizeWindow_failure_swallowed:
  "(\<exists>w'. resizeWindow expanded reply w = Inr w') \<and>
   unhandled (run evs (mount doc)) = [] \<and>
   (\<not> (\<not> expanded \<and> isAnyPopoverOpen (document w)) \<longrightarrow>
    currentExpandedRef w \<noteq> Some expanded \<longrightarrow>
      (\<exists>w'. resizeWindow expanded (Rejected err) w = Inr w' \<and>
         currentExpandedRef w' = currentExpandedRef w \<and>
         document w' = document w \<and>
         applied w' = applied w \<and>
         console w' = console w @ [(''Failed to resize window:'', err)] \<and>
         issued w' = issued w @ [SetWindowHeight (newHeight expanded)] \<and>
         issued (snd (resizeWindow_start expanded w'))
           = issued w @ [SetWindowHeight (newHeight expanded), SetWindowHeight (newHeight expanded)]))"
  by (simp add: resizeWindow_start_def resizeWindow_def resizeWindow_resume_def
      resizeWindow_continue_def host_reply_def Let_def unhandled_run mount_def
      split: outcome.split)

theorem resizeWindow_failure_swallowed_witness:
  "\<exists>w'. resizeWindow True (Rejected (HostError ''denied'')) (mount []) = Inr w' \<and>
      currentExpandedRef w' = None \<and>
      console w' = [(''Failed to resize window:'', HostError ''denied'')] \<and>
      issued w' = [SetWindowHeight 600] \<and>
      issued (snd (resizeWindow_start True w')) = [SetWindowHeight 600, SetWindowHeight 600]"
  using resizeWindow_failure_swallowed
    [of True "Rejected (HostError ''denied'')" "mount []" "[]" "[]" "HostError ''denied''"]
  by (auto simp add: mount_def overlay_closed newHeight_def)

section \<open>The remembered state follows the host\<close>

lemma consistent_mount: "consistent (mount doc)"
  by (simp add: consistent_def mount_def lastApplied_def)

lemma consistent_spawn: "consistent w \<Longrightarrow> consistent (resizeWindow_spawn e w)"
  by (auto simp: consistent_def resizeWindow_spawn_def resizeWindow_start_def lastApplied_def Let_def)

lemma consistent_settle: "consistent w \<Longrightarrow> consistent (settle k reply w)"
  by (auto simp: consistent_def settle_def resizeWindow_resume_def resizeWindow_continue_def
      host_reply_def lastApplied_def Let_def newHeight_600
      split: outcome.split dest: in_set_takeD in_set_dropD)

lemma consistent_runTimer: "consistent w \<Longrightarrow> consistent (runTimer w t)"
proof -
  assume c: "consistent w"
  have "consistent (w\<lparr>now := due t, fired := fired w @ [(due t, cb t)]\<rparr>)"
    using c by (simp add: consistent_def lastApplied_def)
  then show ?thesis
    by (simp add: runTimer_def timerCallback_def consistent_spawn)
qed

lemma consistent_foldl: "consistent w \<Longrightarrow> consistent (foldl runTimer w ts)"
  by (induction ts arbitrary: w) (simp_all add: consistent_runTimer)

lemma consistent_tick: "consistent w \<Longrightarrow> consistent (tick d w)"
proof -
  assume c: "consistent w"
  have "consistent (w\<lparr>timers := filter (\<lambda>t. \<not> due t \<le> now w + d) (timers w)\<rparr>)"
    using c by (simp add: consistent_def lastApplied_def)
  then have "consistent (foldl runTimer (w\<lparr>timers := filter (\<lambda>t. \<not> due t \<le> now w + d) (timers w)\<rparr>)
       (sort_key due (filter (\<lambda>t. due t \<le> now w + d) (timers w))))"
    by (rule consistent_foldl)
  then show ?thesis
    by (simp add: tick_def Let_def consistent_def lastApplied_def)
qed

lemma consistent_step: "consistent w \<Longrightarrow> consistent (step e w)"
proof (cases e)
  case (CallResize x) then show "consistent w \<Longrightarrow> ?thesis" by (simp add: consistent_spawn)
next
  case (Settle k r) then show "consistent w \<Longrightarrow> ?thesis" by (simp add: consistent_settle)
next
  case (MouseDown c) then show "consistent w \<Longrightarrow> ?thesis"
    by (simp add: handleMouseDown_def consistent_def lastApplied_def Let_def)
next
  case MouseUp then show "consistent w \<Longrightarrow> ?thesis"
    by (simp add: handleMouseUp_def setTimeout_def consistent_def lastApplied_def)
next
  case Mutation then show "consistent w \<Longrightarrow> ?thesis"
    by (simp add: observerCallback_def setTimeout_def clearTimeout_def consistent_def
        lastApplied_def Let_def)
next
  case (Tick d) then show "consistent w \<Longrightarrow> ?thesis" by (simp add: consistent_tick)
next
  case Unmount then show "consistent w \<Longrightarrow> ?thesis"
    by (simp add: cleanup_def clearTimeout_def consistent_def lastApplied_def Let_def)
next
  case (SetDocument d) then show "consistent w \<Longrightarrow> ?thesis"
    by (simp add: consistent_def lastApplied_def)
qed

lemma consistent_run: "consistent w \<Longrightarrow> consistent (run evs w)"
  by (induction evs arbitrary: w) (simp_all add: consistent_step)

lemma reachable_consistent: "consistent (run evs (mount doc))"
  by (simp add: consistent_run consistent_mount)

text \<open>An awaited call is the call followed at once by the settling of its own command.\<close>

lemma resizeWindow_as_events:
  "resizeWindow e reply w = Inr (run [CallResize e, Settle (length (inflight w)) reply] w)"
  by (simp add: resizeWindow_def resizeWindow_spawn_def resizeWindow_start_def settle_def
      resizeWindow_resume_def resizeWindow_continue_def host_reply_def Let_def
      split: outcome.split)

lemma run_append: "run (es @ fs) w = run fs (run es w)"
  by (induction es arbitrary: w) simp_all

lemma call_noop_when_applied:
  "currentExpandedRef w = lastApplied w \<Longrightarrow> lastApplied w = Some e \<Longrightarrow> step (CallResize e) w = w"
  by (simp add: resizeWindow_spawn_def resizeWindow_start_def)

lemma call_sends_only_on_difference:
  "currentExpandedRef w = lastApplied w \<Longrightarrow>
   issued (step (CallResize e) w) \<noteq> issued w \<Longrightarrow> lastApplied w \<noteq> Some e"
  by (auto simp: resizeWindow_spawn_def resizeWindow_start_def Let_def split: if_splits)

lemma twice_true_events:
  "currentExpandedRef w = lastApplied w \<Longrightarrow>
   step (CallResize True) (run [CallResize True, Settle (length (inflight w)) Fulfilled] w)
     = run [CallResize True, Settle (length (inflight w)) Fulfilled] w \<and>
   issued (run [CallResize True, Settle (length (inflight w)) Fulfilled] w)
     = issued w @ (if lastApplied w = Some True then [] else [SetWindowHeight 600])"
  by (simp add: resizeWindow_spawn_def resizeWindow_start_def settle_def
      resizeWindow_resume_def resizeWindow_continue_def host_reply_def newHeight_def Let_def)

text \<open>
  C1, as stated, fails: the state is remembered only when the command has been fulfilled, so
  a second \<^verbatim>\<open>resizeWindow(true)\<close> made while the first is still waiting for the host, or
  after the host has rejected the first, passes the equality guard and sends the command
  again. From the mount, both pairs of calls send two commands.
\<close>

theorem unawaited_calls_both_send:
  "issued (run [CallResize True, CallResize True] (mount []))
     = [SetWindowHeight 600, SetWindowHeight 600] \<and>
   length (issued (run [CallResize True, CallResize True] (mount []))) \<noteq> 1 \<and>
   issued (run [CallResize True, Settle 0 (Rejected (HostError ''denied'')), CallResize True]
       (mount [])) = [SetWindowHeight 600, SetWindowHeight 600]"
  by (simp add: mount_def resizeWindow_spawn_def resizeWindow_start_def settle_def
      resizeWindow_resume_def resizeWindow_continue_def host_reply_def newHeight_def Let_def)

text \<open>
  C1, amended. In every state the hook can reach from its mount, by any sequence of calls,
  replies of the host, pointer events, mutations, timers and page changes, a call of
  \<^verbatim>\<open>resizeWindow\<close> sends a command only if the requested state differs from the state the
  host last applied with success, and a call requesting that very state changes nothing. In
  particular, when \<^verbatim>\<open>resizeWindow(true)\<close> is called twice in a row and the host has
  fulfilled the command of the first call before the second is made, the two calls send
  one command in all when the window was not already expanded (none when it was), and the
  second call changes nothing.
\<close>

theorem resize_only_when_state_differs:
  "(issued (step (CallResize e) (run evs (mount doc))) \<noteq> issued (run evs (mount doc)) \<longrightarrow>
      lastApplied (run evs (mount doc)) \<noteq> Some e) \<and>
   (lastApplied (run evs (mount doc)) = Some e \<longrightarrow>
      step (CallResize e) (run evs (mount doc)) = run evs (mount doc)) \<and>
   run (evs @ [CallResize True, Settle (length (inflight (run evs (mount doc)))) Fulfilled,
               CallResize True]) (mount doc)
     = run (evs @ [CallResize True, Settle (length (inflight (run evs (mount doc)))) Fulfilled])
         (mount doc) \<and>
   issued (run (evs @ [CallResize True, Settle (length (inflight (run evs (mount doc)))) Fulfilled,
                       CallResize True]) (mount doc))
     = issued (run evs (mount doc)) @
         (if lastApplied (run evs (mount doc)) = Some True then [] else [SetWindowHeight 600])"
proof -
  have ref: "currentExpandedRef (run evs (mount doc)) = lastApplied (run evs (mount doc))"
    using reachable_consistent [of evs doc] by (simp add: consistent_def)
  show ?thesis
    using call_sends_only_on_difference [OF ref, of e] call_noop_when_applied [OF ref, of e]
      twice_true_events [OF ref]
    by (simp add: run_append)
qed

theorem resize_only_when_state_differs_witness:
  "issued (step (CallResize True) (run [] (mount []))) \<noteq> issued (run [] (mount [])) \<and>
   lastApplied (run [] (mount [])) \<noteq> Some True \<and>
   lastApplied (run [CallResize True, Settle 0 Fulfilled] (mount [])) = Some True \<and>
   step (CallResize True) (run [CallResize True, Settle 0 Fulfilled] (mount []))
     = run [CallResize True, Settle 0 Fulfilled] (mount []) \<and>
   issued (run [CallResize True, Settle 0 Fulfilled, CallResize True] (mount []))
     = [SetWindowHeight 600]"
proof -
  have a: "lastApplied (run [CallResize True, Settle 0 Fulfilled] (mount [])) = Some True"
    by (simp add: mount_def lastApplied_def resizeWindow_spawn_def resizeWindow_start_def
        settle_def resizeWindow_resume_def resizeWindow_continue_def host_reply_def
        newHeight_def Let_def)
  have b: "issued (step (CallResize True) (run [] (mount []))) \<noteq> issued (run [] (mount []))"
    by (simp add: mount_def resizeWindow_spawn_def resizeWindow_start_def Let_def)
  show ?thesis
    using a b resize_only_when_state_differs [of True "[]" "[]"]
      resize_only_when_state_differs [of True "[CallResize True, Settle 0 Fulfilled]" "[]"]
    by (simp add: mount_def lastApplied_def resizeWindow_spawn_def resizeWindow_start_def
        settle_def resizeWindow_resume_def resizeWindow_continue_def host_reply_def
        newHeight_def Let_def)
qed

text \<open>
  C10. The remembered state starts as \<^verbatim>\<open>null\<close>, which is neither \<^verbatim>\<open>true\<close> nor \<^verbatim>\<open>false\<close>.
  As long as the host has carried out no command, whatever else has happened since the
  mount, it is still \<^verbatim>\<open>null\<close>, so a call that is not a collapse under an open overlay
  sends its command, for either target state; the equality guard can stop a call only
  after a command has succeeded.
\<close>

theorem first_resize_always_issues:
  "currentExpandedRef (mount doc) = None \<and>
   currentExpandedRef (mount doc) \<noteq> Some e \<and>
   (let w = run evs (mount doc) in
      (applied w = [] \<longrightarrow>
         currentExpandedRef w = None \<and>
         (\<not> (\<not> e \<and> isAnyPopoverOpen (document w)) \<longrightarrow>
            issued (snd (resizeWindow_start e w)) = issued w @ [SetWindowHeight (newHeight e)])) \<and>
      (currentExpandedRef w = Some e \<longrightarrow> applied w \<noteq> []))"
proof -
  have ref: "currentExpandedRef (run evs (mount doc)) = lastApplied (run evs (mount doc))"
    using reachable_consistent [of evs doc] by (simp add: consistent_def)
  show ?thesis
    unfolding Let_def using ref
    by (auto simp: mount_def lastApplied_def resizeWindow_start_def Let_def)
qed

theorem first_resize_always_issues_witness:
  "applied (run [CallResize True, Settle 0 (Rejected (HostError ''denied''))] (mount [])) = [] \<and>
   currentExpandedRef (run [CallResize True, Settle 0 (Rejected (HostError ''denied''))] (mount [])) = None \<and>
   issued (snd (resizeWindow_start False
       (run [CallResize True, Settle 0 (Rejected (HostError ''denied''))] (mount []))))
     = [SetWindowHeight 600, SetWindowHeight 54]"
proof -
  have a: "applied (run [CallResize True, Settle 0 (Rejected (HostError ''denied''))] (mount [])) = []"
    by (simp add: mount_def resizeWindow_spawn_def resizeWindow_start_def settle_def
        resizeWindow_resume_def resizeWindow_continue_def host_reply_def Let_def)
  have d: "document (run [CallResize True, Settle 0 (Rejected (HostError ''denied''))] (mount [])) = []"
    by (simp add: mount_def resizeWindow_spawn_def resizeWindow_start_def settle_def
        resizeWindow_resume_def resizeWindow_continue_def host_reply_def Let_def)
  have i: "issued (run [CallResize True, Settle 0 (Rejected (HostError ''denied''))] (mount []))
      = [SetWindowHeight 600]"
    by (simp add: mount_def resizeWindow_spawn_def resizeWindow_start_def settle_def
        resizeWindow_resume_def resizeWindow_continue_def host_reply_def newHeight_def Let_def)
  show ?thesis
    using a d i first_resize_always_issues
      [of "[]" False "[CallResize True, Settle 0 (Rejected (HostError ''denied''))]"]
    by (simp add: Let_def overlay_closed newHeight_def)
qed

section \<open>Timers\<close>

lemma spawn_keeps:
  "timers (resizeWindow_spawn e w) = timers w"
  "nextTimer (resizeWindow_spawn e w) = nextTimer w"
  "debounceTimeout (resizeWindow_spawn e w) = debounceTimeout w"
  "observerConnected (resizeWindow_spawn e w) = observerConnected w"
  "mouseListeners (resizeWindow_spawn e w) = mouseListeners w"
  "fired (resizeWindow_spawn e w) = fired w"
  "now (resizeWindow_spawn e w) = now w"
  by (simp_all add: resizeWindow_spawn_def resizeWindow_start_def Let_def)

lemma runTimer_keeps:
  "timers (runTimer w t) = timers w"
  "nextTimer (runTimer w t) = nextTimer w"
  "debounceTimeout (runTimer w t) = debounceTimeout w"
  "observerConnected (runTimer w t) = observerConnected w"
  "mouseListeners (runTimer w t) = mouseListeners w"
  "fired (runTimer w t) = fired w @ [(due t, cb t)]"
  by (simp_all add: runTimer_def timerCallback_def spawn_keeps)

lemma foldl_runTimer_keeps:
  "timers (foldl runTimer w ts) = timers w"
  "nextTimer (foldl runTimer w ts) = nextTimer w"
  "debounceTimeout (foldl runTimer w ts) = debounceTimeout w"
  "observerConnected (foldl runTimer w ts) = observerConnected w"
  "mouseListeners (foldl runTimer w ts) = mouseListeners w"
  "fired (foldl runTimer w ts) = fired w @ map (\<lambda>t. (due t, cb t)) ts"
  by (induction ts arbitrary: w) (simp_all add: runTimer_keeps)

lemma tick_keeps:
  "timers (tick d w) = filter (\<lambda>t. \<not> due t \<le> now w + d) (timers w)"
  "nextTimer (tick d w) = nextTimer w"
  "debounceTimeout (tick d w) = debounceTimeout w"
  "observerConnected (tick d w) = observerConnected w"
  "mouseListeners (tick d w) = mouseListeners w"
  "now (tick d w) = now w + d"
  "fired (tick d w) = fired w @ map (\<lambda>t. (due t, cb t))
      (sort_key due (filter (\<lambda>t. due t \<le> now w + d) (timers w)))"
  by (simp_all add: tick_def Let_def foldl_runTimer_keeps)

lemma settle_keeps:
  "timers (settle k r w) = timers w"
  "nextTimer (settle k r w) = nextTimer w"
  "debounceTimeout (settle k r w) = debounceTimeout w"
  by (simp_all add: settle_def resizeWindow_resume_def resizeWindow_continue_def host_reply_def
      Let_def split: outcome.split)

lemma settle_keeps2:
  "fired (settle k r w) = fired w"
  "now (settle k r w) = now w"
  "observerConnected (settle k r w) = observerConnected w"
  by (simp_all add: settle_def resizeWindow_resume_def resizeWindow_continue_def host_reply_def
      Let_def split: outcome.split)

lemma length_filter_filter_le: "length (filter P (filter Q xs)) \<le> length (filter P xs)"
  by (induction xs) auto

lemma debounce_bound_filter:
  "length (filter P xs) \<le> n \<Longrightarrow> length (filter (\<lambda>x. Q x \<and> P x) xs) \<le> n"
  using length_filter_filter_le [of P Q xs] by simp

lemma slot_ok_mount: "slot_ok (mount doc)"
  by (simp add: slot_ok_def mount_def pendingDebounce_def)

lemma slot_ok_step: "slot_ok w \<Longrightarrow> slot_ok (step e w)"
proof (cases e)
  case (CallResize x) then show "slot_ok w \<Longrightarrow> ?thesis"
    by (simp add: slot_ok_def pendingDebounce_def spawn_keeps)
next
  case (Settle k r) then show "slot_ok w \<Longrightarrow> ?thesis"
    by (simp add: slot_ok_def pendingDebounce_def settle_keeps settle_keeps2)
next
  case (MouseDown c) then show "slot_ok w \<Longrightarrow> ?thesis"
    by (simp add: handleMouseDown_def slot_ok_def pendingDebounce_def Let_def)
next
  case MouseUp then show "slot_ok w \<Longrightarrow> ?thesis"
    by (auto simp add: handleMouseUp_def setTimeout_def slot_ok_def pendingDebounce_def)
next
  case Mutation then show "slot_ok w \<Longrightarrow> ?thesis"
    by (auto simp add: observerCallback_def setTimeout_def clearTimeout_def slot_ok_def
        pendingDebounce_def truthy_def Let_def filter_empty_conv split: option.splits)
next
  case (Tick d) then show "slot_ok w \<Longrightarrow> ?thesis"
    by (auto simp add: slot_ok_def pendingDebounce_def tick_keeps debounce_bound_filter)
next
  case Unmount then show "slot_ok w \<Longrightarrow> ?thesis"
    by (auto simp add: cleanup_def clearTimeout_def slot_ok_def pendingDebounce_def Let_def
        debounce_bound_filter)
next
  case (SetDocument d) then show "slot_ok w \<Longrightarrow> ?thesis"
    by (simp add: slot_ok_def pendingDebounce_def)
qed

lemma slot_ok_run: "slot_ok w \<Longrightarrow> slot_ok (run evs w)"
  by (induction evs arbitrary: w) (simp_all add: slot_ok_step)

lemma no_debounce_when_falsy:
  "slot_ok w \<Longrightarrow> \<not> truthy (debounceTimeout w) \<Longrightarrow> pendingDebounce w = []"
  by (auto simp: slot_ok_def pendingDebounce_def truthy_def filter_empty_conv split: option.splits)

lemma clear_removes_debounce:
  "slot_ok w \<Longrightarrow> truthy (debounceTimeout w) \<Longrightarrow>
   pendingDebounce (clearTimeout (the (debounceTimeout w)) w) = []"
  by (auto simp: slot_ok_def pendingDebounce_def clearTimeout_def truthy_def filter_empty_conv
      split: option.splits)

lemma mutation_arms:
  assumes "slot_ok w" "observerConnected w"
  shows "armed (step Mutation w)"
    and "fired (step Mutation w) = fired w"
    and "now (step Mutation w) = now w"
proof -
  have s: "slot_ok (step Mutation w)" using assms(1) by (rule slot_ok_step)
  show "armed (step Mutation w)"
    unfolding armed_def
    using s assms no_debounce_when_falsy [OF assms(1)] clear_removes_debounce [OF assms(1)]
    by (auto simp: observerCallback_def setTimeout_def clearTimeout_def pendingDebounce_def Let_def)
  show "fired (step Mutation w) = fired w" "now (step Mutation w) = now w"
    using assms by (simp_all add: observerCallback_def setTimeout_def clearTimeout_def Let_def)
qed

lemma debounceRuns_tick:
  "debounceRuns (tick d w) = debounceRuns w @ map (\<lambda>t. (due t, cb t))
      (sort_key due (filter (\<lambda>t. due t \<le> now w + d) (pendingDebounce w)))"
proof -
  have "filter (\<lambda>t. cb t = Debounce) (filter (\<lambda>t. due t \<le> now w + d) (timers w))
      = filter (\<lambda>t. due t \<le> now w + d) (filter (\<lambda>t. cb t = Debounce) (timers w))"
    by (simp add: conj_commute)
  then show ?thesis
    by (simp add: debounceRuns_def pendingDebounce_def tick_keeps filter_map o_def filter_sort)
qed

text \<open>What quiet events do to a state whose debounce timer is pending, or has none.\<close>

lemma future_keep:
  "slot_ok w \<Longrightarrow> filter (\<lambda>t. \<not> due t \<le> now w) (pendingDebounce w) = pendingDebounce w"
proof -
  assume "slot_ok w"
  then have "\<forall>t \<in> set (pendingDebounce w). \<not> due t \<le> now w"
    by (auto simp: slot_ok_def pendingDebounce_def)
  then show ?thesis by (rule filter_True)
qed

lemma future_none: "slot_ok w \<Longrightarrow> dueBy (now w) w = []"
  by (auto simp: slot_ok_def pendingDebounce_def dueBy_def filter_empty_conv)

lemma quiet_step:
  assumes q: "quiet [e]" and s: "slot_ok w"
  shows "now (step e w) = now w + elapsed [e]"
    and "observerConnected (step e w) = observerConnected w"
    and "pendingDebounce (step e w) = filter (\<lambda>t. \<not> due t \<le> now w + elapsed [e]) (pendingDebounce w)"
    and "debounceRuns (step e w) = debounceRuns w @ dueBy (now w + elapsed [e]) w"
proof -
  have fut: "\<forall>t \<in> set (pendingDebounce w). now w < due t"
    using s by (simp add: slot_ok_def pendingDebounce_def)
  have keep: "filter (\<lambda>t. \<not> due t \<le> now w) (pendingDebounce w) = pendingDebounce w"
    using fut by (auto simp: filter_id_conv)
  have none: "dueBy (now w) w = []"
    using fut by (auto simp: dueBy_def filter_empty_conv)
  have l: "length (pendingDebounce w) \<le> 1" using s by (simp add: slot_ok_def)
  have c: "\<forall>t \<in> set (pendingDebounce w). cb t = Debounce"
    by (simp add: pendingDebounce_def)
  have all: "now (step e w) = now w + elapsed [e] \<and>
     observerConnected (step e w) = observerConnected w \<and>
     pendingDebounce (step e w) = filter (\<lambda>t. \<not> due t \<le> now w + elapsed [e]) (pendingDebounce w) \<and>
     debounceRuns (step e w) = debounceRuns w @ dueBy (now w + elapsed [e]) w"
  proof (cases e)
    case (Tick d)
    have srt: "sort_key due (filter (\<lambda>t. due t \<le> now w + d) (pendingDebounce w))
        = filter (\<lambda>t. due t \<le> now w + d) (pendingDebounce w)"
      using l by (cases "pendingDebounce w") auto
    have "map (\<lambda>t. (due t, cb t)) (filter (\<lambda>t. due t \<le> now w + d) (pendingDebounce w))
        = map (\<lambda>t. (due t, Debounce)) (filter (\<lambda>t. due t \<le> now w + d) (pendingDebounce w))"
      using c by simp
    then have "debounceRuns (tick d w) = debounceRuns w @ dueBy (now w + d) w"
      using srt by (simp add: debounceRuns_tick dueBy_def)
    moreover have "pendingDebounce (tick d w)
        = filter (\<lambda>t. \<not> due t \<le> now w + d) (pendingDebounce w)"
      by (simp add: pendingDebounce_def tick_keeps conj_commute)
    ultimately show ?thesis using Tick by (simp add: tick_keeps)
  next
    case (CallResize x)
    then show ?thesis using keep none
      by (simp add: pendingDebounce_def debounceRuns_def dueBy_def spawn_keeps)
  next
    case (Settle k r)
    then show ?thesis using keep none
      by (simp add: pendingDebounce_def debounceRuns_def dueBy_def settle_keeps settle_keeps2)
  next
    case (MouseDown ch)
    then show ?thesis using keep none
      by (simp add: pendingDebounce_def debounceRuns_def dueBy_def handleMouseDown_def Let_def)
  next
    case MouseUp
    then show ?thesis using keep none
      by (simp add: pendingDebounce_def debounceRuns_def dueBy_def handleMouseUp_def setTimeout_def)
  next
    case (SetDocument x)
    then show ?thesis using keep none
      by (simp add: pendingDebounce_def debounceRuns_def dueBy_def)
  next
    case Mutation then show ?thesis using q by simp
  next
    case Unmount then show ?thesis using q by simp
  qed
  then show "now (step e w) = now w + elapsed [e]"
    and "observerConnected (step e w) = observerConnected w"
    and "pendingDebounce (step e w) = filter (\<lambda>t. \<not> due t \<le> now w + elapsed [e]) (pendingDebounce w)"
    and "debounceRuns (step e w) = debounceRuns w @ dueBy (now w + elapsed [e]) w"
    by simp_all
qed


lemma quiet_Cons: "quiet (e # es) \<Longrightarrow> quiet [e] \<and> quiet es"
  by (cases e) simp_all

lemma elapsed_Cons: "elapsed (e # es) = elapsed [e] + elapsed es"
  by (cases e) simp_all

lemma quiet_run:
  "quiet es \<Longrightarrow> slot_ok w \<Longrightarrow>
     now (run es w) = now w + elapsed es \<and>
     observerConnected (run es w) = observerConnected w \<and>
     pendingDebounce (run es w) = filter (\<lambda>t. \<not> due t \<le> now w + elapsed es) (pendingDebounce w) \<and>
     debounceRuns (run es w) = debounceRuns w @ dueBy (now w + elapsed es) w"
proof (induction es arbitrary: w)
  case Nil
  then show ?case by (simp add: future_keep future_none)
next
  case (Cons e es)
  have qe: "quiet [e]" and qes: "quiet es" using Cons.prems(1) quiet_Cons by blast+
  note st = quiet_step [OF qe Cons.prems(2)]
  have s1: "slot_ok (step e w)" using Cons.prems(2) by (rule slot_ok_step)
  note ih = Cons.IH [OF qes s1]
  have l: "length (pendingDebounce w) \<le> 1" using Cons.prems(2) by (simp add: slot_ok_def)
  let ?a = "now w + elapsed [e]"
  let ?b = "now w + elapsed (e # es)"
  have ab: "?b = ?a + elapsed es" using elapsed_Cons [of e es] by simp
  have p: "filter (\<lambda>t. \<not> due t \<le> ?a + elapsed es) (filter (\<lambda>t. \<not> due t \<le> ?a) (pendingDebounce w))
      = filter (\<lambda>t. \<not> due t \<le> ?a + elapsed es) (pendingDebounce w)"
    by (rule filter_cong [OF refl, THEN trans [OF filter_filter]]) auto
  have r: "dueBy ?a w @ dueBy (?a + elapsed es) (step e w) = dueBy (?a + elapsed es) w"
    using l st(3) by (cases "pendingDebounce w") (auto simp: dueBy_def)
  show ?case
    using ih st p r ab by (simp add: add.assoc)
qed


lemma burst_arms:
  "slot_ok w \<Longrightarrow> observerConnected w \<Longrightarrow> \<forall>g \<in> set gs. quiet g \<and> elapsed g < 150 \<Longrightarrow>
     armed (run (burst gs) w) \<and>
     debounceRuns (run (burst gs) w) = debounceRuns w \<and>
     now (run (burst gs) w) = now w + sum_list (map elapsed gs)"
proof (induction gs arbitrary: w)
  case Nil
  then show ?case
    using mutation_arms [of w] by (simp add: debounceRuns_def)
next
  case (Cons g gs)
  let ?w1 = "step Mutation w"
  let ?w2 = "run g ?w1"
  have a1: "armed ?w1" and f1: "fired ?w1 = fired w" and n1: "now ?w1 = now w"
    using mutation_arms [of w] Cons.prems by simp_all
  have s1: "slot_ok ?w1" and c1: "observerConnected ?w1" using a1 by (simp_all add: armed_def)
  from a1 obtain t where t: "pendingDebounce ?w1 = [t]" "due t = now ?w1 + 150"
    by (auto simp: armed_def map_eq_Cons_conv)
  have g: "quiet g" "elapsed g < 150" using Cons.prems by simp_all
  note q = quiet_run [OF g(1) s1]
  have s2: "slot_ok ?w2" using s1 by (rule slot_ok_run)
  have c2: "observerConnected ?w2" using q c1 by simp
  have d2: "debounceRuns ?w2 = debounceRuns w"
    using q t g(2) f1 by (simp add: dueBy_def debounceRuns_def)
  have n2: "now ?w2 = now w + elapsed g" using q n1 by simp
  have "armed (run (burst gs) ?w2) \<and>
     debounceRuns (run (burst gs) ?w2) = debounceRuns ?w2 \<and>
     now (run (burst gs) ?w2) = now ?w2 + sum_list (map elapsed gs)"
    using Cons.IH [OF s2 c2] Cons.prems by simp
  then show ?case
    using d2 n2 by (simp add: run_append)
qed

lemma armed_fires_once:
  assumes "armed w" "quiet f" "150 \<le> elapsed f"
  shows "debounceRuns (run f w) = debounceRuns w @ [(now w + 150, Debounce)]"
proof -
  from assms(1) obtain t where t: "pendingDebounce w = [t]" "due t = now w + 150"
    and s: "slot_ok w"
    by (auto simp: armed_def map_eq_Cons_conv)
  show ?thesis
    using quiet_run [OF assms(2) s] t assms(3) by (simp add: dueBy_def)
qed

text \<open>Drag-release timers: what every event but the unmount does to them.\<close>

lemma settle_keeps3: "mouseListeners (settle k r w) = mouseListeners w"
  by (simp add: settle_def resizeWindow_resume_def resizeWindow_continue_def host_reply_def
      Let_def split: outcome.split)

lemma ids_ok_mount: "ids_ok (mount doc)"
  by (simp add: ids_ok_def mount_def)

lemma ids_ok_step: "ids_ok w \<Longrightarrow> ids_ok (step e w)"
proof (cases e)
  case (CallResize x) then show "ids_ok w \<Longrightarrow> ?thesis"
    by (simp add: ids_ok_def spawn_keeps split: option.splits)
next
  case (Settle k r) then show "ids_ok w \<Longrightarrow> ?thesis"
    by (simp add: ids_ok_def settle_keeps settle_keeps2 settle_keeps3 split: option.splits)
next
  case (MouseDown c) then show "ids_ok w \<Longrightarrow> ?thesis"
    by (simp add: handleMouseDown_def ids_ok_def Let_def split: option.splits)
next
  case MouseUp then show "ids_ok w \<Longrightarrow> ?thesis"
    by (auto simp add: handleMouseUp_def setTimeout_def ids_ok_def less_Suc_eq
        split: option.splits)
next
  case Mutation then show "ids_ok w \<Longrightarrow> ?thesis"
    by (auto simp add: observerCallback_def setTimeout_def clearTimeout_def ids_ok_def
        Let_def less_Suc_eq split: option.splits)
next
  case (Tick d) then show "ids_ok w \<Longrightarrow> ?thesis"
    by (auto simp add: ids_ok_def tick_keeps split: option.splits)
next
  case Unmount then show "ids_ok w \<Longrightarrow> ?thesis"
    by (auto simp add: cleanup_def clearTimeout_def ids_ok_def Let_def split: option.splits)
next
  case (SetDocument d) then show "ids_ok w \<Longrightarrow> ?thesis"
    by (simp add: ids_ok_def split: option.splits)
qed

lemma ids_ok_run: "ids_ok w \<Longrightarrow> ids_ok (run evs w)"
  by (induction evs arbitrary: w) (simp_all add: ids_ok_step)

lemma dragRuns_tick:
  "dragRuns (tick d w) = dragRuns w @ map (\<lambda>t. (due t, DragRelease))
      (sort_key due (filter (\<lambda>t. due t \<le> now w + d) (pendingDrag w)))"
proof -
  have "filter (\<lambda>t. cb t = DragRelease) (filter (\<lambda>t. due t \<le> now w + d) (timers w))
      = filter (\<lambda>t. due t \<le> now w + d) (filter (\<lambda>t. cb t = DragRelease) (timers w))"
    by (simp add: conj_commute)
  then have "dragRuns (tick d w) = dragRuns w @ map (\<lambda>t. (due t, cb t))
      (sort_key due (filter (\<lambda>t. due t \<le> now w + d) (pendingDrag w)))"
    by (simp add: dragRuns_def pendingDrag_def tick_keeps filter_map o_def filter_sort)
  moreover have "map (\<lambda>t. (due t, cb t))
        (sort_key due (filter (\<lambda>t. due t \<le> now w + d) (pendingDrag w)))
      = map (\<lambda>t. (due t, DragRelease))
        (sort_key due (filter (\<lambda>t. due t \<le> now w + d) (pendingDrag w)))"
    by (rule map_cong) (auto simp: pendingDrag_def)
  ultimately show ?thesis by simp
qed

lemma drag_future_keep:
  "slot_ok w \<Longrightarrow> filter (\<lambda>t. \<not> due t \<le> now w) (pendingDrag w) = pendingDrag w"
proof -
  assume "slot_ok w"
  then have "\<forall>t \<in> set (pendingDrag w). \<not> due t \<le> now w"
    by (auto simp: slot_ok_def pendingDrag_def)
  then show ?thesis by (rule filter_True)
qed

lemma drag_future_none:
  "slot_ok w \<Longrightarrow> filter (\<lambda>t. due t \<le> now w) (pendingDrag w) = []"
  by (auto simp: slot_ok_def pendingDrag_def filter_empty_conv)

lemma clear_keeps_drag:
  "ids_ok w \<Longrightarrow> truthy (debounceTimeout w) \<Longrightarrow>
   pendingDrag (clearTimeout (the (debounceTimeout w)) w) = pendingDrag w"
proof -
  assume i: "ids_ok w" and t: "truthy (debounceTimeout w)"
  have "\<forall>t \<in> set (pendingDrag w). tid t \<noteq> the (debounceTimeout w)"
    using i t by (auto simp: ids_ok_def truthy_def pendingDrag_def split: option.splits)
  then have "filter (\<lambda>t. tid t \<noteq> the (debounceTimeout w)) (pendingDrag w) = pendingDrag w"
    by (rule filter_True)
  then show ?thesis
    by (simp add: pendingDrag_def clearTimeout_def conj_commute)
qed

lemma drag_step:
  assumes s: "slot_ok w" and i: "ids_ok w" and c: "observerConnected w" and e: "e \<noteq> Unmount"
  shows "pendingDrag (step e w)
      = filter (\<lambda>t. \<not> due t \<le> now w + elapsed [e]) (pendingDrag w) @
        (if e = MouseUp \<and> isDragging w
         then [\<lparr>tid = nextTimer w, due = now w + 100, cb = DragRelease\<rparr>] else [])"
    and "dragRuns (step e w) = dragRuns w @ map (\<lambda>t. (due t, DragRelease))
        (sort_key due (filter (\<lambda>t. due t \<le> now w + elapsed [e]) (pendingDrag w)))"
    and "e = MouseUp \<longrightarrow> \<not> isDragging (step e w)"
proof -
  note k = drag_future_keep [OF s] and n = drag_future_none [OF s]
  have m: "mouseListeners w" using i c by (simp add: ids_ok_def)
  have "pendingDrag (step e w)
      = filter (\<lambda>t. \<not> due t \<le> now w + elapsed [e]) (pendingDrag w) @
        (if e = MouseUp \<and> isDragging w
         then [\<lparr>tid = nextTimer w, due = now w + 100, cb = DragRelease\<rparr>] else []) \<and>
    dragRuns (step e w) = dragRuns w @ map (\<lambda>t. (due t, DragRelease))
        (sort_key due (filter (\<lambda>t. due t \<le> now w + elapsed [e]) (pendingDrag w))) \<and>
    (e = MouseUp \<longrightarrow> \<not> isDragging (step e w))"
  proof (cases e)
    case (Tick d)
    have "pendingDrag (tick d w) = filter (\<lambda>t. \<not> due t \<le> now w + d) (pendingDrag w)"
      by (simp add: pendingDrag_def tick_keeps conj_commute)
    then show ?thesis using Tick by (simp add: dragRuns_tick)
  next
    case (CallResize x)
    then show ?thesis using k n by (simp add: pendingDrag_def dragRuns_def spawn_keeps)
  next
    case (Settle j r)
    then show ?thesis using k n
      by (simp add: pendingDrag_def dragRuns_def settle_keeps settle_keeps2)
  next
    case (MouseDown ch)
    then show ?thesis using k n
      by (simp add: pendingDrag_def dragRuns_def handleMouseDown_def Let_def)
  next
    case MouseUp
    then show ?thesis using k n m
      by (simp add: pendingDrag_def dragRuns_def handleMouseUp_def setTimeout_def)
  next
    case (SetDocument x)
    then show ?thesis using k n by (simp add: pendingDrag_def dragRuns_def)
  next
    case Mutation
    have "pendingDrag (observerCallback w) = pendingDrag w"
      using clear_keeps_drag [OF i]
      by (simp add: observerCallback_def setTimeout_def Let_def pendingDrag_def clearTimeout_def)
    moreover have "fired (observerCallback w) = fired w"
      by (simp add: observerCallback_def setTimeout_def clearTimeout_def Let_def)
    ultimately show ?thesis using Mutation k n c by (simp add: dragRuns_def)
  next
    case Unmount then show ?thesis using e by simp
  qed
  then show "pendingDrag (step e w)
      = filter (\<lambda>t. \<not> due t \<le> now w + elapsed [e]) (pendingDrag w) @
        (if e = MouseUp \<and> isDragging w
         then [\<lparr>tid = nextTimer w, due = now w + 100, cb = DragRelease\<rparr>] else [])"
    and "dragRuns (step e w) = dragRuns w @ map (\<lambda>t. (due t, DragRelease))
        (sort_key due (filter (\<lambda>t. due t \<le> now w + elapsed [e]) (pendingDrag w)))"
    and "e = MouseUp \<longrightarrow> \<not> isDragging (step e w)"
    by simp_all
qed

lemma unmounted_ignores_events:
  "step (MouseDown chain) (cleanup w) = cleanup w \<and>
   step MouseUp (cleanup w) = cleanup w \<and>
   step Mutation (cleanup w) = cleanup w"
  by (simp add: cleanup_def clearTimeout_def Let_def)

lemma unmounted_no_debounce_timer: "slot_ok w \<Longrightarrow> pendingDebounce (cleanup w) = []"
  using no_debounce_when_falsy [of w] clear_removes_debounce [of w]
  by (auto simp: cleanup_def clearTimeout_def pendingDebounce_def Let_def)

text \<open>
  C6. The cleanup removes both pointer listeners, disconnects the observer and clears the
  debounce timer, but the timer that \<^verbatim>\<open>handleMouseUp\<close> starts is held nowhere and is not
  cleared. Here a drag is released (pointer down in a drag region, pointer up), the view
  unmounts at once, and 100 ms pass: the drag-release closure still runs, at time 100, and
  sends the collapse command to the host.
\<close>

theorem drag_release_timer_survives_unmount:
  "timers (run [MouseDown [dragElement], MouseUp, Unmount] (mount []))
     = [\<lparr>tid = 1, due = 100, cb = DragRelease\<rparr>] \<and>
   fired (run [MouseDown [dragElement], MouseUp, Unmount, Tick 100] (mount []))
     = [(100, DragRelease)] \<and>
   issued (run [MouseDown [dragElement], MouseUp, Unmount, Tick 100] (mount []))
     = [SetWindowHeight 54]"
  by (simp add: mount_def handleMouseDown_def handleMouseUp_def closest_def dragElement_def
      setTimeout_def cleanup_def truthy_def tick_def runTimer_def timerCallback_def
      resizeWindow_spawn_def resizeWindow_start_def newHeight_def overlay_closed Let_def)

text \<open>
  C8, as stated, fails: a new triggering event does not cancel an earlier delay timer. Two
  drags released 50 ms apart leave two timers pending, and both closures run, at 100 ms
  and at 150 ms: two collapse evaluations where the claim allows one.
\<close>

theorem drag_release_timers_pile_up:
  "length (timers (run [MouseDown [dragElement], MouseUp, Tick 50,
                        MouseDown [dragElement], MouseUp] (mount []))) = 2 \<and>
   fired (run [MouseDown [dragElement], MouseUp, Tick 50,
               MouseDown [dragElement], MouseUp, Tick 100] (mount []))
     = [(100, DragRelease), (150, DragRelease)] \<and>
   \<not> length (fired (run [MouseDown [dragElement], MouseUp, Tick 50,
                         MouseDown [dragElement], MouseUp, Tick 100] (mount []))) \<le> 1"
  by (simp add: mount_def handleMouseDown_def handleMouseUp_def closest_def dragElement_def
      setTimeout_def cleanup_def truthy_def tick_def runTimer_def timerCallback_def
      resizeWindow_spawn_def resizeWindow_start_def newHeight_def overlay_closed Let_def)

text \<open>
  C8, amended. The debounce timer of the mutation observer is a single slot: in every state
  reachable from the mount at most one debounce timer is pending, since each mutation batch
  clears the one before and starts another. So while the observer is connected, a burst of
  batches, each less than 150 ms after the one before (whatever else happens in between,
  short of an unmount), runs the debounce closure not at all while it lasts and exactly
  once afterwards, 150 ms after the last batch of the burst. Drag-release timers are no
  part of the slot: while the view is mounted, a pointer-up that ends a drag clears the
  dragging flag and adds one timer due 100 ms later; no event short of an unmount, another
  drag release and a mutation batch included, takes a pending drag-release timer away
  before it is due; and when the time reaches its due time its closure runs.
\<close>

theorem debounce_burst_single_evaluation:
  "observerConnected (run evs (mount doc)) \<Longrightarrow>
   \<forall>g \<in> set gs. quiet g \<and> elapsed g < 150 \<Longrightarrow>
   quiet f \<Longrightarrow> 150 \<le> elapsed f \<Longrightarrow>
     length (pendingDebounce (run evs (mount doc))) \<le> 1 \<and>
     debounceRuns (run (evs @ burst gs) (mount doc)) = debounceRuns (run evs (mount doc)) \<and>
     debounceRuns (run (evs @ burst gs @ f) (mount doc))
       = debounceRuns (run evs (mount doc)) @
           [(now (run evs (mount doc)) + sum_list (map elapsed gs) + 150, Debounce)] \<and>
     (e \<noteq> Unmount \<longrightarrow>
        pendingDrag (step e (run evs (mount doc)))
          = filter (\<lambda>t. \<not> due t \<le> now (run evs (mount doc)) + elapsed [e])
              (pendingDrag (run evs (mount doc))) @
            (if e = MouseUp \<and> isDragging (run evs (mount doc))
             then [\<lparr>tid = nextTimer (run evs (mount doc)),
                    due = now (run evs (mount doc)) + 100, cb = DragRelease\<rparr>]
             else []) \<and>
        dragRuns (step e (run evs (mount doc)))
          = dragRuns (run evs (mount doc)) @
            map (\<lambda>t. (due t, DragRelease))
              (sort_key due (filter (\<lambda>t. due t \<le> now (run evs (mount doc)) + elapsed [e])
                 (pendingDrag (run evs (mount doc)))))) \<and>
     \<not> isDragging (step MouseUp (run evs (mount doc)))"
proof -
  assume c: "observerConnected (run evs (mount doc))"
    and gs: "\<forall>g \<in> set gs. quiet g \<and> elapsed g < 150"
    and f: "quiet f" "150 \<le> elapsed f"
  have s: "slot_ok (run evs (mount doc))" by (simp add: slot_ok_run slot_ok_mount)
  have i: "ids_ok (run evs (mount doc))" by (simp add: ids_ok_run ids_ok_mount)
  note b = burst_arms [OF s c gs]
  have "debounceRuns (run f (run (burst gs) (run evs (mount doc))))
      = debounceRuns (run (burst gs) (run evs (mount doc))) @
          [(now (run (burst gs) (run evs (mount doc))) + 150, Debounce)]"
    using b f by (simp add: armed_fires_once)
  then have debounce: "length (pendingDebounce (run evs (mount doc))) \<le> 1 \<and>
     debounceRuns (run (evs @ burst gs) (mount doc)) = debounceRuns (run evs (mount doc)) \<and>
     debounceRuns (run (evs @ burst gs @ f) (mount doc))
       = debounceRuns (run evs (mount doc)) @
           [(now (run evs (mount doc)) + sum_list (map elapsed gs) + 150, Debounce)]"
    using b s by (simp add: run_append slot_ok_def)
  have up: "\<not> isDragging (step MouseUp (run evs (mount doc)))"
    using drag_step(3) [OF s i c, of MouseUp] by simp
  show ?thesis
    using debounce up drag_step(1,2) [OF s i c, of e] by blast
qed

theorem debounce_burst_single_evaluation_witness:
  "observerConnected (run [] (mount [])) \<and>
   quiet [Tick 100] \<and> elapsed [Tick 100] < 150 \<and>
   quiet [MouseDown [dragElement], Tick 60, MouseUp, Tick 80] \<and>
   elapsed [MouseDown [dragElement], Tick 60, MouseUp, Tick 80] < 150 \<and>
   quiet [Tick 200] \<and> 150 \<le> elapsed [Tick 200] \<and>
   debounceRuns (run (burst [[Tick 100], [MouseDown [dragElement], Tick 60, MouseUp, Tick 80]])
       (mount [])) = [] \<and>
   debounceRuns (run (burst [[Tick 100], [MouseDown [dragElement], Tick 60, MouseUp, Tick 80]]
       @ [Tick 200]) (mount [])) = [(390, Debounce)] \<and>
   observerConnected (run [MouseDown [dragElement], MouseUp] (mount [])) \<and>
   Mutation \<noteq> Unmount \<and>
   pendingDrag (step Mutation (run [MouseDown [dragElement], MouseUp] (mount [])))
     = [\<lparr>tid = 1, due = 100, cb = DragRelease\<rparr>] \<and>
   dragRuns (step (Tick 100) (run [MouseDown [dragElement], MouseUp] (mount [])))
     = [(100, DragRelease)]"
proof -
  have c: "observerConnected (run [] (mount []))" by (simp add: mount_def)
  have g: "\<forall>g \<in> set [[Tick 100], [MouseDown [dragElement], Tick 60, MouseUp, Tick 80]].
      quiet g \<and> elapsed g < 150" by simp
  have f: "quiet [Tick 200]" "150 \<le> elapsed [Tick 200]" by simp_all
  have e: "debounceRuns (run [] (mount [])) = []" "now (run [] (mount [])) = 0"
    by (simp_all add: mount_def debounceRuns_def)
  have first: "debounceRuns (run (burst [[Tick 100], [MouseDown [dragElement], Tick 60, MouseUp, Tick 80]])
       (mount [])) = [] \<and>
   debounceRuns (run (burst [[Tick 100], [MouseDown [dragElement], Tick 60, MouseUp, Tick 80]]
       @ [Tick 200]) (mount [])) = [(390, Debounce)]"
    using debounce_burst_single_evaluation [OF c g f]
    unfolding e by simp
  have w: "run [MouseDown [dragElement], MouseUp] (mount [])
      = (mount [])\<lparr>timers := [\<lparr>tid = 1, due = 100, cb = DragRelease\<rparr>], nextTimer := 2\<rparr>"
    by (simp add: mount_def handleMouseDown_def handleMouseUp_def closest_def dragElement_def
        setTimeout_def)
  have c2: "observerConnected (run [MouseDown [dragElement], MouseUp] (mount []))"
    unfolding w by (simp add: mount_def)
  have g2: "\<forall>g \<in> set []. quiet g \<and> elapsed g < 150" by simp
  have p: "pendingDrag (run [MouseDown [dragElement], MouseUp] (mount []))
      = [\<lparr>tid = 1, due = 100, cb = DragRelease\<rparr>]"
    "dragRuns (run [MouseDown [dragElement], MouseUp] (mount [])) = []"
    "now (run [MouseDown [dragElement], MouseUp] (mount [])) = 0"
    unfolding w by (simp_all add: mount_def pendingDrag_def dragRuns_def)
  have second: "pendingDrag (step Mutation (run [MouseDown [dragElement], MouseUp] (mount [])))
      = [\<lparr>tid = 1, due = 100, cb = DragRelease\<rparr>]"
    using debounce_burst_single_evaluation [OF c2 g2 f, of Mutation]
    unfolding p by simp
  have third: "dragRuns (step (Tick 100) (run [MouseDown [dragElement], MouseUp] (mount [])))
      = [(100, DragRelease)]"
    using debounce_burst_single_evaluation [OF c2 g2 f, of "Tick 100"]
    unfolding p by simp
  show ?thesis
    using c f c2 first second third by simp
qed

section \<open>Properties of useWindowFocus\<close>

text \<open>
  C9. A notification with payload \<^verbatim>\<open>true\<close> runs \<^verbatim>\<open>onFocusGained\<close> when it is given and
  nothing else; one with payload \<^verbatim>\<open>false\<close> runs \<^verbatim>\<open>onFocusLost\<close> when it is given and
  nothing else; when the callback for the payload is absent the state is untouched. No
  error arises in any case, and the host's notification to the one subscription has
  exactly that effect.
\<close>

theorem handleFocusChange_dispatch:
  "handleFocusChange opts True s
     = Inr (case onFocusGained opts of Some gained \<Rightarrow> gained s | None \<Rightarrow> s) \<and>
   handleFocusChange opts False s
     = Inr (case onFocusLost opts of Some lost \<Rightarrow> lost s | None \<Rightarrow> s) \<and>
   focusRun opts [SetupSettles Fulfilled, FocusChanged focused] (focusMount s)
     = (focusRun opts [SetupSettles Fulfilled] (focusMount s))
         \<lparr>app := (if focused
                  then case onFocusGained opts of Some gained \<Rightarrow> gained s | None \<Rightarrow> s
                  else case onFocusLost opts of Some lost \<Rightarrow> lost s | None \<Rightarrow> s)\<rparr>"
  by (simp add: handleFocusChange_def callOptional_def focusMount_def
      setupFocusListener_resume_def deliver_def split: option.split)

theorem handleFocusChange_dispatch_witness:
  "handleFocusChange logging True [] = Inr [''gained''] \<and>
   handleFocusChange logging False [] = Inr [''lost''] \<and>
   handleFocusChange (logging\<lparr>onFocusGained := None\<rparr>) True [] = Inr [] \<and>
   handleFocusChange (logging\<lparr>onFocusLost := None\<rparr>) False [] = Inr [] \<and>
   app (focusRun logging [SetupSettles Fulfilled, FocusChanged True] (focusMount [])) = [''gained'']"
  using handleFocusChange_dispatch [of logging "[]" True]
    handleFocusChange_dispatch [of "logging\<lparr>onFocusGained := None\<rparr>" "[]"]
    handleFocusChange_dispatch [of "logging\<lparr>onFocusLost := None\<rparr>" "[]"]
  by (simp add: logging_def)

text \<open>
  C5. The cleanup cancels a subscription only through \<^verbatim>\<open>unlisten\<close>, which is still
  \<^verbatim>\<open>null\<close> while the promise of \<^verbatim>\<open>onFocusChanged\<close> is pending. When the subscription is
  set up first and the view unmounts after, it is cancelled. When the view unmounts first,
  the cleanup does nothing, the subscription made afterwards stays with the host, and a
  later focus change still runs the callback of the unmounted view.
\<close>

theorem unmount_before_subscription_leaks:
  "listeners (focusRun opts [SetupSettles Fulfilled, EffectCleanup] (focusMount s)) = [] \<and>
   listeners (focusRun opts [EffectCleanup, SetupSettles Fulfilled] (focusMount s)) = [0] \<and>
   app (focusRun logging [EffectCleanup, SetupSettles Fulfilled, FocusChanged True] (focusMount []))
     = [''gained'']"
  by (simp add: focusMount_def setupFocusListener_resume_def focusCleanup_def deliver_def
      handleFocusChange_def callOptional_def logging_def)

section \<open>What the observer is told of\<close>

lemma notified_observeOptions:
  "notified observed observeOptions m \<longleftrightarrow>
     target m = observed \<and> (kind m = ChildListChange \<or> kind m = AttributeChange ''data-state'')"
  by (auto simp: notified_def observeOptions_def split: mutationKind.splits)

text \<open>
  C7. With the options passed to \<^verbatim>\<open>observe\<close>, \<^verbatim>\<open>subtree\<close> is off for every kind of
  mutation: the observer on \<^verbatim>\<open>body\<close> hears of child-list changes of \<^verbatim>\<open>body\<close> and of a
  \<^verbatim>\<open>data-state\<close> change on \<^verbatim>\<open>body\<close> itself, and of nothing below. A \<^verbatim>\<open>data-state\<close>
  toggle on the popover content, two levels under \<^verbatim>\<open>body\<close>, is not reported, although the
  same toggle on \<^verbatim>\<open>body\<close> and a child added to \<^verbatim>\<open>body\<close> are.
\<close>

theorem popover_attribute_toggle_not_observed:
  "\<not> notified bodyNode observeOptions popoverToggle \<and>
   notified bodyNode observeOptions (popoverToggle\<lparr>target := 1, ancestors := [0]\<rparr>) \<and>
   notified bodyNode observeOptions \<lparr>kind = ChildListChange, target = 1, ancestors = [0]\<rparr> \<and>
   \<not> notified bodyNode observeOptions \<lparr>kind = ChildListChange, target = 2, ancestors = [1, 0]\<rparr>"
  by (simp add: notified_def observeOptions_def bodyNode_def popoverToggle_def)

end
